theory Spec2Isabelle
  imports Main "HOL-Library.Word"
begin

section \<open>Dynamic values, errors and observable events\<close>

text \<open>
  A Go \<open>interface{}\<close> value as the cached enforcer sees it: the only question the code
  asks of a parameter is the type assertion \<open>param.(string)\<close>. \<open>VNil\<close> is the zero
  value of a freshly made \<open>[]interface{}\<close>; \<open>VUint\<close> carries the survival time handed
  to \<open>Set\<close>; \<open>VOther\<close> stands for every other dynamic value, told apart by a tag.
\<close>

datatype iface = VNil | VString string | VUint nat | VOther nat

text \<open>
  Go errors are compared by identity with the package-level sentinel \<open>ErrNoSuchKey\<close>.
  Every other error value is \<open>ErrOther\<close> with its message; the absent error
  \<open>nil\<close> is \<open>None\<close> of \<open>error option\<close>.
\<close>

datatype error = ErrNoSuchKey | ErrOther string

text \<open>
  The calls an operation makes on its collaborators, in program order: the acquire and
  release of the \<open>sync.RWMutex\<close>, the four methods of the cache store and the four
  methods of the wrapped engine.
\<close>

datatype event =
    RLock | RUnlock | Lock | Unlock
  | CacheSet string bool "iface list" | CacheGet string | CacheDelete string | CacheClear
  | EngineEnforce "iface list" | EngineLoadPolicy
  | EngineRemovePolicy "iface list" | EngineRemovePolicies "string list list"

datatype panic = IndexOutOfRange | AssignToNilMap

section \<open>The cache store\<close>

text \<open>
  \<open>persist.Cache\<close> is an interface: a value of it is a method table together with
  the receiver the methods act on. A method may change its receiver and may fail, so each
  returns its Go results paired with the receiver afterwards.
\<close>

record 'c Cache =
  Cache_Set :: "string \<Rightarrow> bool \<Rightarrow> iface list \<Rightarrow> 'c \<Rightarrow> error option \<times> 'c"
  Cache_Get :: "string \<Rightarrow> 'c \<Rightarrow> (bool \<times> error option) \<times> 'c"
  Cache_Delete :: "string \<Rightarrow> 'c \<Rightarrow> error option \<times> 'c"
  Cache_Clear :: "'c \<Rightarrow> error option \<times> 'c"
  self :: 'c

text \<open>
  \<open>type DefaultCache map[string]bool\<close>. A value of a Go map type is either the nil map,
  which is the zero value of the type, or a map that \<open>make\<close> has made, with its entries.
\<close>

type_synonym entries = "string \<Rightarrow> bool option"

datatype DefaultCache = NilMap | MadeMap entries

text \<open>
  The index expression \<open>(*c)[key]\<close> with its \<open>ok\<close> result, and the builtin
  \<open>delete(*c, key)\<close>: a nil map reads as an empty one, and deleting from it does nothing.
\<close>

fun map_index :: "DefaultCache \<Rightarrow> string \<Rightarrow> bool option" where
  "map_index NilMap key = None"
| "map_index (MadeMap m) key = m key"

fun map_delete :: "DefaultCache \<Rightarrow> string \<Rightarrow> DefaultCache" where
  "map_delete NilMap key = NilMap"
| "map_delete (MadeMap m) key = MadeMap (m(key := None))"

text \<open>
  The four methods, on the map the receiver points to; the receiver is a pointer to a
  \<open>DefaultCache\<close> variable, as \<open>&cache\<close> is. The assignment
  \<open>(*c)[key] = value\<close> of \<open>Set\<close> panics on the nil map; the other three methods work
  on it, and \<open>Clear\<close> replaces whatever was there by a newly made map.
\<close>

definition DefaultCache_Set ::
  "string \<Rightarrow> bool \<Rightarrow> iface list \<Rightarrow> DefaultCache \<Rightarrow> panic + (error option \<times> DefaultCache)" where
  "DefaultCache_Set key val extra c =
     (case c of
        NilMap \<Rightarrow> Inl AssignToNilMap
      | MadeMap m \<Rightarrow> Inr (None, MadeMap (m(key \<mapsto> val))))"

definition DefaultCache_Get ::
  "string \<Rightarrow> DefaultCache \<Rightarrow> (bool \<times> error option) \<times> DefaultCache" where
  "DefaultCache_Get key c =
     (case map_index c key of
        None \<Rightarrow> ((False, Some ErrNoSuchKey), c)
      | Some res \<Rightarrow> ((res, None), c))"

definition DefaultCache_Delete ::
  "string \<Rightarrow> DefaultCache \<Rightarrow> error option \<times> DefaultCache" where
  "DefaultCache_Delete key c =
     (case map_index c key of
        None \<Rightarrow> (Some ErrNoSuchKey, c)
      | Some _ \<Rightarrow> (None, map_delete c key))"

definition DefaultCache_Clear :: "DefaultCache \<Rightarrow> error option \<times> DefaultCache" where
  "DefaultCache_Clear c = (None, MadeMap Map.empty)"

text \<open>
  \<open>NewCachedEnforcer\<close> makes the map before it stores \<open>&cache\<close> in \<open>e.cache\<close>, and
  no method turns a made map into the nil map. On such a receiver the four methods never
  panic and act on the entries alone: these are the methods as the enforcer's default
  store runs them. \<open>DefaultCache_made\<close> below states that they are the methods above
  on \<open>MadeMap\<close>.
\<close>

definition made_Set ::
  "string \<Rightarrow> bool \<Rightarrow> iface list \<Rightarrow> entries \<Rightarrow> error option \<times> entries" where
  "made_Set key val extra m = (None, m(key \<mapsto> val))"

definition made_Get :: "string \<Rightarrow> entries \<Rightarrow> (bool \<times> error option) \<times> entries" where
  "made_Get key m =
     (case m key of
        None \<Rightarrow> ((False, Some ErrNoSuchKey), m)
      | Some res \<Rightarrow> ((res, None), m))"

definition made_Delete :: "string \<Rightarrow> entries \<Rightarrow> error option \<times> entries" where
  "made_Delete key m =
     (case m key of
        None \<Rightarrow> (Some ErrNoSuchKey, m)
      | Some _ \<Rightarrow> (None, m(key := None)))"

definition made_Clear :: "entries \<Rightarrow> error option \<times> entries" where
  "made_Clear m = (None, Map.empty)"

text \<open>
  A \<open>*DefaultCache\<close> pointing to a made map, used as a \<open>persist.Cache\<close> as
  \<open>e.cache = &cache\<close> does; the receiver state is the entries of the map.
\<close>

definition DefaultCache_iface :: "entries \<Rightarrow> entries Cache" where
  "DefaultCache_iface m =
     \<lparr>Cache_Set = made_Set, Cache_Get = made_Get,
      Cache_Delete = made_Delete, Cache_Clear = made_Clear, self = m\<rparr>"

section \<open>The wrapped engine\<close>

text \<open>
  The embedded \<open>*Enforcer\<close> is declared outside the files at hand, so its four methods
  are a parameter of every operation: each takes the engine's state and returns its Go
  results with the state afterwards. Nothing is assumed about what they compute.
\<close>

record 'e engine =
  eEnforce :: "iface list \<Rightarrow> 'e \<Rightarrow> (bool \<times> error option) \<times> 'e"
  eLoadPolicy :: "'e \<Rightarrow> error option \<times> 'e"
  eRemovePolicy :: "iface list \<Rightarrow> 'e \<Rightarrow> (bool \<times> error option) \<times> 'e"
  eRemovePolicies :: "string list list \<Rightarrow> 'e \<Rightarrow> (bool \<times> error option) \<times> 'e"

section \<open>The cached enforcer\<close>

text \<open>
  The struct \<open>CachedEnforcer\<close>. \<open>expireTime\<close> is a Go \<open>uint\<close> that is only stored
  and passed on, never computed with. \<open>enableCache\<close> is the \<open>int32\<close> behind the atomic
  load and store. The \<open>locker\<close> field is represented by the \<open>RLock\<close>, \<open>RUnlock\<close>,
  \<open>Lock\<close> and \<open>Unlock\<close> events of an operation: within one caller every
  acquisition is released (by \<open>defer\<close>) before the method holding it returns.
\<close>

record ('e, 'c) CachedEnforcer =
  Enforcer :: 'e
  expireTime :: nat
  cache :: "'c Cache"
  enableCache :: "32 word"

text \<open>
  An operation returns its Go results, the enforcer afterwards and the events it caused.
\<close>

type_synonym ('a, 'e, 'c) effect = "'a \<times> ('e, 'c) CachedEnforcer \<times> event list"

text \<open>\<open>NewCachedEnforcer\<close>, given what \<open>NewEnforcer(params...)\<close> returned.\<close>

definition NewCachedEnforcer :: "error + 'e \<Rightarrow> error + ('e, entries) CachedEnforcer" where
  "NewCachedEnforcer newEnforcer =
     (case newEnforcer of
        Inl err \<Rightarrow> Inl err
      | Inr en \<Rightarrow>
          Inr \<lparr>Enforcer = en, expireTime = 0, cache = DefaultCache_iface Map.empty,
               enableCache = 1\<rparr>)"

definition EnableCache :: "bool \<Rightarrow> ('e, 'c) CachedEnforcer \<Rightarrow> ('e, 'c) CachedEnforcer" where
  "EnableCache enable e =
     (let enabled = (if enable then 1 else 0) in e\<lparr>enableCache := enabled\<rparr>)"

definition SetExpireTime :: "nat \<Rightarrow> ('e, 'c) CachedEnforcer \<Rightarrow> ('e, 'c) CachedEnforcer" where
  "SetExpireTime t e = e\<lparr>expireTime := t\<rparr>"

definition SetCache :: "'c Cache \<Rightarrow> ('e, 'c) CachedEnforcer \<Rightarrow> ('e, 'c) CachedEnforcer" where
  "SetCache c e = e\<lparr>cache := c\<rparr>"

subsection \<open>Calls on the store held in \<open>e.cache\<close>\<close>

definition cache_Set ::
  "string \<Rightarrow> bool \<Rightarrow> iface list \<Rightarrow> ('e, 'c) CachedEnforcer \<Rightarrow> (error option, 'e, 'c) effect" where
  "cache_Set key res extra e =
     (case Cache_Set (cache e) key res extra (self (cache e)) of
        (err, s) \<Rightarrow> (err, e\<lparr>cache := (cache e)\<lparr>self := s\<rparr>\<rparr>, [CacheSet key res extra]))"

definition cache_Get ::
  "string \<Rightarrow> ('e, 'c) CachedEnforcer \<Rightarrow> (bool \<times> error option, 'e, 'c) effect" where
  "cache_Get key e =
     (case Cache_Get (cache e) key (self (cache e)) of
        (r, s) \<Rightarrow> (r, e\<lparr>cache := (cache e)\<lparr>self := s\<rparr>\<rparr>, [CacheGet key]))"

definition cache_Delete ::
  "string \<Rightarrow> ('e, 'c) CachedEnforcer \<Rightarrow> (error option, 'e, 'c) effect" where
  "cache_Delete key e =
     (case Cache_Delete (cache e) key (self (cache e)) of
        (err, s) \<Rightarrow> (err, e\<lparr>cache := (cache e)\<lparr>self := s\<rparr>\<rparr>, [CacheDelete key]))"

definition cache_Clear :: "('e, 'c) CachedEnforcer \<Rightarrow> (error option, 'e, 'c) effect" where
  "cache_Clear e =
     (case Cache_Clear (cache e) (self (cache e)) of
        (err, s) \<Rightarrow> (err, e\<lparr>cache := (cache e)\<lparr>self := s\<rparr>\<rparr>, [CacheClear]))"

subsection \<open>Calls on the embedded engine\<close>

definition Enforcer_Enforce ::
  "'e engine \<Rightarrow> iface list \<Rightarrow> ('e, 'c) CachedEnforcer \<Rightarrow> (bool \<times> error option, 'e, 'c) effect" where
  "Enforcer_Enforce E rvals e =
     (case eEnforce E rvals (Enforcer e) of
        (r, s) \<Rightarrow> (r, e\<lparr>Enforcer := s\<rparr>, [EngineEnforce rvals]))"

definition Enforcer_LoadPolicy ::
  "'e engine \<Rightarrow> ('e, 'c) CachedEnforcer \<Rightarrow> (error option, 'e, 'c) effect" where
  "Enforcer_LoadPolicy E e =
     (case eLoadPolicy E (Enforcer e) of
        (err, s) \<Rightarrow> (err, e\<lparr>Enforcer := s\<rparr>, [EngineLoadPolicy]))"

definition Enforcer_RemovePolicy ::
  "'e engine \<Rightarrow> iface list \<Rightarrow> ('e, 'c) CachedEnforcer \<Rightarrow> (bool \<times> error option, 'e, 'c) effect" where
  "Enforcer_RemovePolicy E params e =
     (case eRemovePolicy E params (Enforcer e) of
        (r, s) \<Rightarrow> (r, e\<lparr>Enforcer := s\<rparr>, [EngineRemovePolicy params]))"

definition Enforcer_RemovePolicies ::
  "'e engine \<Rightarrow> string list list \<Rightarrow> ('e, 'c) CachedEnforcer \<Rightarrow> (bool \<times> error option, 'e, 'c) effect" where
  "Enforcer_RemovePolicies E rules e =
     (case eRemovePolicies E rules (Enforcer e) of
        (r, s) \<Rightarrow> (r, e\<lparr>Enforcer := s\<rparr>, [EngineRemovePolicies rules]))"

subsection \<open>The key builder\<close>

text \<open>
  The loop of \<open>getKey\<close> over the remaining parameters, with the \<open>strings.Builder\<close>
  contents so far: a string parameter is written followed by \<open>$$\<close>, anything else
  returns the empty key and \<open>false\<close> at once.
\<close>

fun getKey_loop :: "string \<Rightarrow> iface list \<Rightarrow> string \<times> bool" where
  "getKey_loop key [] = (key, True)"
| "getKey_loop key (VString val # params) = getKey_loop (key @ val @ ''$$'') params"
| "getKey_loop key (_ # params) = ('''', False)"

definition getKey :: "iface list \<Rightarrow> string \<times> bool" where
  "getKey params = getKey_loop [] params"

subsection \<open>Locked access to the store\<close>

definition getCachedResult ::
  "string \<Rightarrow> ('e, 'c) CachedEnforcer \<Rightarrow> (bool \<times> error option, 'e, 'c) effect" where
  "getCachedResult key e =
     (case cache_Get key e of (r, e1, t) \<Rightarrow> (r, e1, [RLock] @ t @ [RUnlock]))"

definition setCachedResult ::
  "string \<Rightarrow> bool \<Rightarrow> iface list \<Rightarrow> ('e, 'c) CachedEnforcer \<Rightarrow> (error option, 'e, 'c) effect" where
  "setCachedResult key res extra e =
     (case cache_Set key res extra e of (err, e1, t) \<Rightarrow> (err, e1, [Lock] @ t @ [Unlock]))"

definition InvalidateCache :: "('e, 'c) CachedEnforcer \<Rightarrow> (error option, 'e, 'c) effect" where
  "InvalidateCache e =
     (case cache_Clear e of (err, e1, t) \<Rightarrow> (err, e1, [Lock] @ t @ [Unlock]))"

subsection \<open>The intercepted operations\<close>

definition Enforce ::
  "'e engine \<Rightarrow> iface list \<Rightarrow> ('e, 'c) CachedEnforcer \<Rightarrow> (bool \<times> error option, 'e, 'c) effect" where
  "Enforce E rvals e =
     (if enableCache e = 0 then Enforcer_Enforce E rvals e
      else case getKey rvals of (key, ok) \<Rightarrow>
        if \<not> ok then Enforcer_Enforce E rvals e
        else case getCachedResult key e of ((res, err), e1, t1) \<Rightarrow>
          if err = None then ((res, None), e1, t1)
          else if err \<noteq> Some ErrNoSuchKey then ((res, err), e1, t1)
          else case Enforcer_Enforce E rvals e1 of ((res2, err2), e2, t2) \<Rightarrow>
            if err2 \<noteq> None then ((False, err2), e2, t1 @ t2)
            else case setCachedResult key res2 [VUint (expireTime e2)] e2 of
              (err3, e3, t3) \<Rightarrow> ((res2, err3), e3, t1 @ t2 @ t3))"

definition LoadPolicy :: "'e engine \<Rightarrow> ('e, 'c) CachedEnforcer \<Rightarrow> (error option, 'e, 'c) effect" where
  "LoadPolicy E e =
     (if enableCache e \<noteq> 0 then
        case cache_Clear e of (err, e1, t1) \<Rightarrow>
          if err \<noteq> None then (err, e1, t1)
          else case Enforcer_LoadPolicy E e1 of (r, e2, t2) \<Rightarrow> (r, e2, t1 @ t2)
      else Enforcer_LoadPolicy E e)"

definition RemovePolicy ::
  "'e engine \<Rightarrow> iface list \<Rightarrow> ('e, 'c) CachedEnforcer \<Rightarrow> (bool \<times> error option, 'e, 'c) effect" where
  "RemovePolicy E params e =
     (if enableCache e \<noteq> 0 then
        case getKey params of (key, ok) \<Rightarrow>
          if ok then
            case cache_Delete key e of (err, e1, t1) \<Rightarrow>
              if err \<noteq> None \<and> err \<noteq> Some ErrNoSuchKey then ((False, err), e1, t1)
              else case Enforcer_RemovePolicy E params e1 of (r, e2, t2) \<Rightarrow> (r, e2, t1 @ t2)
          else Enforcer_RemovePolicy E params e
      else Enforcer_RemovePolicy E params e)"

text \<open>
  The inner loop of \<open>RemovePolicies\<close>: \<open>irule[i] = param\<close> for the parameters of one
  rule from index \<open>i\<close> on. \<open>irule\<close> keeps the length it was made with, so an index past
  its end is Go's index-out-of-range panic.
\<close>

fun assign_irule :: "nat \<Rightarrow> string list \<Rightarrow> iface list \<Rightarrow> panic + iface list" where
  "assign_irule i [] irule = Inr irule"
| "assign_irule i (param # rule) irule =
     (if i < length irule then assign_irule (Suc i) rule (irule[i := VString param])
      else Inl IndexOutOfRange)"

text \<open>
  The outer loop: \<open>irule\<close> is the one slice shared by all iterations; the \<open>ok\<close> of
  \<open>getKey\<close> is dropped; a \<open>Delete\<close> error other than \<open>ErrNoSuchKey\<close> ends the loop
  and is the error returned.
\<close>

fun RemovePolicies_loop ::
  "string list list \<Rightarrow> iface list \<Rightarrow> ('e, 'c) CachedEnforcer
     \<Rightarrow> panic + (error option, 'e, 'c) effect" where
  "RemovePolicies_loop [] irule e = Inr (None, e, [])"
| "RemovePolicies_loop (rule # rules) irule e =
     (case assign_irule 0 rule irule of
        Inl p \<Rightarrow> Inl p
      | Inr irule1 \<Rightarrow>
          (case cache_Delete (fst (getKey irule1)) e of
             (err, e1, t1) \<Rightarrow>
               if err \<noteq> None \<and> err \<noteq> Some ErrNoSuchKey then Inr (err, e1, t1)
               else (case RemovePolicies_loop rules irule1 e1 of
                       Inl p \<Rightarrow> Inl p
                     | Inr (err2, e2, t2) \<Rightarrow> Inr (err2, e2, t1 @ t2))))"

definition RemovePolicies ::
  "'e engine \<Rightarrow> string list list \<Rightarrow> ('e, 'c) CachedEnforcer
     \<Rightarrow> panic + (bool \<times> error option, 'e, 'c) effect" where
  "RemovePolicies E rules e =
     (case rules of
        [] \<Rightarrow> Inr (Enforcer_RemovePolicies E rules e)
      | rule0 # _ \<Rightarrow>
          if enableCache e \<noteq> 0 then
            (case RemovePolicies_loop rules (replicate (length rule0) VNil) e of
               Inl p \<Rightarrow> Inl p
             | Inr (err, e1, t1) \<Rightarrow>
                 if err \<noteq> None then Inr ((False, err), e1, t1)
                 else (case Enforcer_RemovePolicies E rules e1 of
                         (r, e2, t2) \<Rightarrow> Inr (r, e2, t1 @ t2)))
          else Inr (Enforcer_RemovePolicies E rules e))"

section \<open>Reading an operation's events\<close>

text \<open>
  Which lock the caller holds as the events of one operation go by, starting from a
  free mutex.
\<close>

datatype held = Free | Shared | Exclusive

text \<open>
  The locking rule: a \<open>Get\<close> on the store happens with the read lock held, a \<open>Set\<close>,
  \<open>Delete\<close> or \<open>Clear\<close> with the write lock held.
\<close>

fun lock_guarded :: "held \<Rightarrow> event list \<Rightarrow> bool" where
  "lock_guarded h [] = True"
| "lock_guarded h (RLock # t) = lock_guarded Shared t"
| "lock_guarded h (RUnlock # t) = lock_guarded Free t"
| "lock_guarded h (Lock # t) = lock_guarded Exclusive t"
| "lock_guarded h (Unlock # t) = lock_guarded Free t"
| "lock_guarded h (CacheGet k # t) = (h = Shared \<and> lock_guarded h t)"
| "lock_guarded h (CacheSet k v x # t) = (h = Exclusive \<and> lock_guarded h t)"
| "lock_guarded h (CacheDelete k # t) = (h = Exclusive \<and> lock_guarded h t)"
| "lock_guarded h (CacheClear # t) = (h = Exclusive \<and> lock_guarded h t)"
| "lock_guarded h (_ # t) = lock_guarded h t"

fun is_engine_event :: "event \<Rightarrow> bool" where
  "is_engine_event (EngineEnforce _) = True"
| "is_engine_event EngineLoadPolicy = True"
| "is_engine_event (EngineRemovePolicy _) = True"
| "is_engine_event (EngineRemovePolicies _) = True"
| "is_engine_event _ = False"

fun is_string :: "iface \<Rightarrow> bool" where
  "is_string (VString _) = True"
| "is_string _ = False"

section \<open>Test collaborators\<close>

text \<open>
  A call-counting stub engine: its state is the number of calls made so far, and
  \<open>Enforce\<close> answers by a fixed table \<open>f\<close>.
\<close>

definition stub_engine :: "(iface list \<Rightarrow> bool \<times> error option) \<Rightarrow> nat engine" where
  "stub_engine f =
     \<lparr>eEnforce = (\<lambda>rvals n. (f rvals, Suc n)),
      eLoadPolicy = (\<lambda>n. (None, Suc n)),
      eRemovePolicy = (\<lambda>params n. ((True, None), Suc n)),
      eRemovePolicies = (\<lambda>rules n. ((True, None), Suc n))\<rparr>"

text \<open>A store whose backend is unreachable: every method fails with the same error.\<close>

definition broken_store :: "unit Cache" where
  "broken_store =
     \<lparr>Cache_Set = (\<lambda>key val extra u. (Some (ErrOther ''unreachable''), u)),
      Cache_Get = (\<lambda>key u. ((False, Some (ErrOther ''unreachable'')), u)),
      Cache_Delete = (\<lambda>key u. (Some (ErrOther ''unreachable''), u)),
      Cache_Clear = (\<lambda>u. (Some (ErrOther ''unreachable''), u)),
      self = ()\<rparr>"

text \<open>A store that cannot be written: it holds nothing and refuses every \<open>Set\<close>.\<close>

definition readonly_store :: "unit Cache" where
  "readonly_store =
     \<lparr>Cache_Set = (\<lambda>key val extra u. (Some (ErrOther ''read-only''), u)),
      Cache_Get = (\<lambda>key u. ((False, Some ErrNoSuchKey), u)),
      Cache_Delete = (\<lambda>key u. (Some ErrNoSuchKey, u)),
      Cache_Clear = (\<lambda>u. (Some (ErrOther ''read-only''), u)),
      self = ()\<rparr>"

text \<open>Enforcers to run the operations on: caching enabled, the stub engine not yet called.\<close>

definition test_enforcer :: "entries \<Rightarrow> (nat, entries) CachedEnforcer" where
  "test_enforcer m =
     \<lparr>Enforcer = 0, expireTime = 0, cache = DefaultCache_iface m, enableCache = 1\<rparr>"

definition broken_enforcer :: "(nat, unit) CachedEnforcer" where
  "broken_enforcer = \<lparr>Enforcer = 0, expireTime = 0, cache = broken_store, enableCache = 1\<rparr>"

section \<open>What the store's documentation promises\<close>

text \<open>
  The comments of \<open>persist.Cache\<close> say that \<open>Set\<close> puts the key and value into the
  cache and that \<open>Get\<close> returns the result for a key. Read as laws of a method table,
  over every receiver state: a \<open>Get\<close> right after a successful \<open>Set\<close> of the same
  key returns the value set, and a \<open>Get\<close> that found a value finds it again.
\<close>

definition Set_then_Get :: "'c Cache \<Rightarrow> bool" where
  "Set_then_Get C \<longleftrightarrow>
     (\<forall>key val extra s s'. Cache_Set C key val extra s = (None, s')
        \<longrightarrow> fst (Cache_Get C key s') = (val, None))"

definition Get_repeats :: "'c Cache \<Rightarrow> bool" where
  "Get_repeats C \<longleftrightarrow>
     (\<forall>key val s s'. Cache_Get C key s = ((val, None), s')
        \<longrightarrow> fst (Cache_Get C key s') = (val, None))"

text \<open>
  \<open>Clear\<close> is documented to delete all the items stored: after a \<open>Clear\<close> that
  succeeded, every \<open>Get\<close> fails with \<open>ErrNoSuchKey\<close>.
\<close>

definition Clear_empties :: "'c Cache \<Rightarrow> bool" where
  "Clear_empties C \<longleftrightarrow>
     (\<forall>key s s'. Cache_Clear C s = (None, s')
        \<longrightarrow> fst (Cache_Get C key s') = (False, Some ErrNoSuchKey))"

section \<open>The key builder\<close>

lemma getKey_loop_non_string:
  "\<not> list_all is_string params \<Longrightarrow> getKey_loop key params = ('''', False)"
  by (induction key params rule: getKey_loop.induct) simp_all

lemma getKey_loop_strings:
  "list_all is_string params \<Longrightarrow> snd (getKey_loop key params) = True"
  by (induction key params rule: getKey_loop.induct) simp_all

lemma getKey_non_string:
  "\<exists>p \<in> set params. \<not> is_string p \<Longrightarrow> getKey params = ('''', False)"
  unfolding getKey_def by (rule getKey_loop_non_string) (simp add: list_all_iff)

lemma getKey_strings:
  assumes "\<forall>p \<in> set params. is_string p"
  shows "\<exists>key. getKey params = (key, True)"
proof -
  from assms have "snd (getKey_loop [] params) = True"
    by (intro getKey_loop_strings) (simp add: list_all_iff)
  then show ?thesis unfolding getKey_def by (cases "getKey_loop [] params") simp
qed

section \<open>The default in-memory store\<close>

lemma DefaultCache_Set_then_Get: "Set_then_Get (DefaultCache_iface m)"
  by (auto simp: Set_then_Get_def DefaultCache_iface_def made_Set_def made_Get_def)

lemma DefaultCache_Get_repeats: "Get_repeats (DefaultCache_iface m)"
  by (auto simp: Get_repeats_def DefaultCache_iface_def made_Get_def split: option.splits)

lemma DefaultCache_Clear_empties: "Clear_empties (DefaultCache_iface m)"
  by (simp add: Clear_empties_def DefaultCache_iface_def made_Clear_def made_Get_def)

lemma DefaultCache_made:
  "DefaultCache_Set key val extra (MadeMap m)
     = (case made_Set key val extra m of (err, m') \<Rightarrow> Inr (err, MadeMap m'))"
  "DefaultCache_Get key (MadeMap m) = (case made_Get key m of (r, m') \<Rightarrow> (r, MadeMap m'))"
  "DefaultCache_Delete key (MadeMap m)
     = (case made_Delete key m of (err, m') \<Rightarrow> (err, MadeMap m'))"
  "DefaultCache_Clear (MadeMap m) = (case made_Clear m of (err, m') \<Rightarrow> (err, MadeMap m'))"
  by (simp_all add: DefaultCache_Set_def DefaultCache_Get_def DefaultCache_Delete_def
      DefaultCache_Clear_def made_Set_def made_Get_def made_Delete_def made_Clear_def
      split: option.splits)

text \<open>
  \<open>Set\<close> does not succeed on every store: on the nil map, which \<open>Get\<close> and
  \<open>Delete\<close> accept, it panics.
\<close>

theorem DefaultCache_Set_nil_map_panics:
  "DefaultCache_Set ''alice$$'' True [VUint 0] NilMap = Inl AssignToNilMap
   \<and> DefaultCache_Set ''alice$$'' True [VUint 0] NilMap
       \<noteq> Inr (None, MadeMap [''alice$$'' \<mapsto> True])
   \<and> DefaultCache_Get ''alice$$'' NilMap = ((False, Some ErrNoSuchKey), NilMap)"
  by (simp add: DefaultCache_Set_def DefaultCache_Get_def)

text \<open>
  Claim C8, for a receiver whose map has been made. For every such map with entries
  \<open>m\<close>, key \<open>k\<close>, decision \<open>v\<close> and survival hint: \<open>Set\<close> succeeds and leaves
  exactly \<open>m\<close> with \<open>k\<close> bound to \<open>v\<close>, whatever the hint and whatever \<open>m\<close> held for
  \<open>k\<close>, and a \<open>Get\<close> of \<open>k\<close> after it returns \<open>v\<close> with no error. On a key that
  is present, \<open>Get\<close> returns its decision with no error and \<open>Delete\<close> succeeds and
  removes that key and no other. On a key that is absent, and on the nil map, \<open>Get\<close>
  and \<open>Delete\<close> fail with \<open>ErrNoSuchKey\<close>. \<open>Get\<close> and a failed \<open>Delete\<close> leave
  the store as it was. \<open>Clear\<close> succeeds on every store, the nil map too, and leaves a
  made map with no entries, on which every \<open>Get\<close> fails with \<open>ErrNoSuchKey\<close>. On the
  nil map \<open>Set\<close> panics.
\<close>

theorem DefaultCache_contract:
  "DefaultCache_Set k v hint (MadeMap m) = Inr (None, MadeMap (m(k \<mapsto> v)))
   \<and> DefaultCache_Get k (MadeMap (m(k \<mapsto> v))) = ((v, None), MadeMap (m(k \<mapsto> v)))
   \<and> (m k = Some v \<longrightarrow>
        DefaultCache_Get k (MadeMap m) = ((v, None), MadeMap m)
        \<and> DefaultCache_Delete k (MadeMap m) = (None, MadeMap (m(k := None))))
   \<and> (m k = None \<longrightarrow>
        DefaultCache_Get k (MadeMap m) = ((False, Some ErrNoSuchKey), MadeMap m)
        \<and> DefaultCache_Delete k (MadeMap m) = (Some ErrNoSuchKey, MadeMap m))
   \<and> DefaultCache_Get k NilMap = ((False, Some ErrNoSuchKey), NilMap)
   \<and> DefaultCache_Delete k NilMap = (Some ErrNoSuchKey, NilMap)
   \<and> DefaultCache_Clear c = (None, MadeMap Map.empty)
   \<and> (\<forall>k'. DefaultCache_Get k' (snd (DefaultCache_Clear c))
          = ((False, Some ErrNoSuchKey), MadeMap Map.empty))
   \<and> DefaultCache_Set k v hint NilMap = Inl AssignToNilMap"
  by (simp add: DefaultCache_Set_def DefaultCache_Get_def DefaultCache_Delete_def
      DefaultCache_Clear_def)

theorem DefaultCache_contract_witness:
  "[''alice$$'' \<mapsto> False, ''bob$$'' \<mapsto> True] ''alice$$'' = Some False
   \<and> DefaultCache_Get ''alice$$'' (MadeMap [''alice$$'' \<mapsto> False, ''bob$$'' \<mapsto> True])
     = ((False, None), MadeMap [''alice$$'' \<mapsto> False, ''bob$$'' \<mapsto> True])
   \<and> DefaultCache_Delete ''alice$$'' (MadeMap [''alice$$'' \<mapsto> False, ''bob$$'' \<mapsto> True])
     = (None, MadeMap [''bob$$'' \<mapsto> True])
   \<and> DefaultCache_Get ''bob$$'' (MadeMap [''bob$$'' \<mapsto> True])
     = ((True, None), MadeMap [''bob$$'' \<mapsto> True])
   \<and> DefaultCache_Set ''alice$$'' True [VUint 30]
        (MadeMap [''alice$$'' \<mapsto> False, ''bob$$'' \<mapsto> True])
     = Inr (None, MadeMap [''alice$$'' \<mapsto> True, ''bob$$'' \<mapsto> True])
   \<and> (Map.empty :: entries) ''alice$$'' = None
   \<and> DefaultCache_Get ''alice$$'' (MadeMap Map.empty)
     = ((False, Some ErrNoSuchKey), MadeMap Map.empty)
   \<and> DefaultCache_Delete ''alice$$'' (MadeMap Map.empty)
     = (Some ErrNoSuchKey, MadeMap Map.empty)
   \<and> DefaultCache_Clear (MadeMap [''alice$$'' \<mapsto> False, ''bob$$'' \<mapsto> True])
     = (None, MadeMap Map.empty)
   \<and> DefaultCache_Clear NilMap = (None, MadeMap Map.empty)"
proof -
  let ?m = "[''alice$$'' \<mapsto> False, ''bob$$'' \<mapsto> True] :: entries"
  have present: "?m ''alice$$'' = Some False" by simp
  have absent: "(Map.empty :: entries) ''alice$$'' = None" by simp
  have removed: "?m(''alice$$'' := None) = [''bob$$'' \<mapsto> True]" by (rule ext) simp
  have updated: "?m(''alice$$'' \<mapsto> True) = [''alice$$'' \<mapsto> True, ''bob$$'' \<mapsto> True]"
    by (rule ext) simp
  from DefaultCache_contract [of "''alice$$''" False "[VUint 30]" ?m "MadeMap ?m"]
    DefaultCache_contract [of "''alice$$''" True "[VUint 30]" ?m NilMap]
    DefaultCache_contract [of "''alice$$''" True "[VUint 30]" Map.empty NilMap]
    DefaultCache_contract [of "''bob$$''" True "[VUint 30]" Map.empty NilMap]
    present absent removed updated
  show ?thesis by simp
qed

section \<open>Evaluating the operations on concrete enforcers\<close>

lemmas run_defs =
  Enforce_def LoadPolicy_def RemovePolicy_def RemovePolicies_def InvalidateCache_def
  getKey_def getCachedResult_def setCachedResult_def
  cache_Get_def cache_Set_def cache_Delete_def cache_Clear_def
  Enforcer_Enforce_def Enforcer_LoadPolicy_def Enforcer_RemovePolicy_def
  Enforcer_RemovePolicies_def
  DefaultCache_iface_def made_Get_def made_Set_def made_Delete_def
  made_Clear_def stub_engine_def broken_store_def readonly_store_def
  test_enforcer_def broken_enforcer_def

section \<open>The enable flag\<close>

text \<open>
  Claim C7. \<open>EnableCache b\<close> writes the enable flag and nothing else: the engine, the
  expire time and the store (its method table and every entry) are the ones before, and
  so they are after \<open>EnableCache(false)\<close> followed by \<open>EnableCache(true)\<close>.
\<close>

theorem EnableCache_only_writes_flag:
  "EnableCache b e = e\<lparr>enableCache := (if b then 1 else 0)\<rparr>
   \<and> Enforcer (EnableCache b e) = Enforcer e
   \<and> expireTime (EnableCache b e) = expireTime e
   \<and> cache (EnableCache b e) = cache e
   \<and> EnableCache True (EnableCache False e) = e\<lparr>enableCache := 1\<rparr>
   \<and> cache (EnableCache True (EnableCache False e)) = cache e
   \<and> expireTime (EnableCache True (EnableCache False e)) = expireTime e
   \<and> Enforcer (EnableCache True (EnableCache False e)) = Enforcer e"
  by (simp add: EnableCache_def)

section \<open>Enforce\<close>

text \<open>
  Claim C3. With caching enabled and at least one parameter that is not a string,
  \<open>Enforce\<close> is exactly the call of the engine's \<open>Enforce\<close>: it returns the engine's
  result, the store is the one before the call, and the engine call is the only event (no
  \<open>Get\<close>, no \<open>Set\<close>).
\<close>

theorem Enforce_non_string_delegates:
  assumes "enableCache e \<noteq> 0" and "\<exists>p \<in> set rvals. \<not> is_string p"
  shows "Enforce E rvals e = Enforcer_Enforce E rvals e
    \<and> fst (Enforce E rvals e) = fst (eEnforce E rvals (Enforcer e))
    \<and> cache (fst (snd (Enforce E rvals e))) = cache e
    \<and> snd (snd (Enforce E rvals e)) = [EngineEnforce rvals]"
  using assms getKey_non_string [of rvals]
  by (simp add: Enforce_def Enforcer_Enforce_def split: prod.splits)

theorem Enforce_non_string_delegates_witness:
  "enableCache (test_enforcer [''alice$$'' \<mapsto> False]) \<noteq> 0
   \<and> (\<exists>p \<in> set [VString ''alice'', VOther 7]. \<not> is_string p)
   \<and> Enforce (stub_engine (\<lambda>rvals. (True, None))) [VString ''alice'', VOther 7]
        (test_enforcer [''alice$$'' \<mapsto> False])
     = ((True, None), (test_enforcer [''alice$$'' \<mapsto> False])\<lparr>Enforcer := 1\<rparr>,
        [EngineEnforce [VString ''alice'', VOther 7]])"
proof -
  have en: "enableCache (test_enforcer [''alice$$'' \<mapsto> False]) \<noteq> 0"
    by (simp add: test_enforcer_def)
  have ns: "\<exists>p \<in> set [VString ''alice'', VOther 7]. \<not> is_string p" by simp
  from Enforce_non_string_delegates [OF en ns, of "stub_engine (\<lambda>rvals. (True, None))"] en ns
  show ?thesis by (simp add: Enforcer_Enforce_def stub_engine_def test_enforcer_def)
qed

lemma Enforce_second_call_hits:
  assumes en: "enableCache e \<noteq> 0"
    and k1: "getKey rvals = (key, True)"
    and k2: "getKey rvals' = (key, True)"
    and sg: "Set_then_Get (cache e)"
    and gr: "Get_repeats (cache e)"
    and first: "Enforce E rvals e = ((d, None), e1, t1)"
  shows "\<exists>e2. Enforce E rvals' e1 = ((d, None), e2, [RLock, CacheGet key, RUnlock])
           \<and> Enforcer e2 = Enforcer e1"
proof -
  obtain r err s where g: "Cache_Get (cache e) key (self (cache e)) = ((r, err), s)"
    by (metis surj_pair)
  show ?thesis
  proof (cases "err = None")
    case True
    with en k1 g first have e1: "e1 = e\<lparr>cache := (cache e)\<lparr>self := s\<rparr>\<rparr>" and d: "d = r"
      by (auto simp: Enforce_def getCachedResult_def cache_Get_def)
    from gr g True have "fst (Cache_Get (cache e) key s) = (r, None)"
      unfolding Get_repeats_def by blast
    then show ?thesis using en k2 e1 d
      by (auto simp: Enforce_def getCachedResult_def cache_Get_def split: prod.splits)
  next
    case False
    obtain r2 err2 s2 where en2: "eEnforce E rvals (Enforcer e) = ((r2, err2), s2)"
      by (metis surj_pair)
    obtain err3 s3 where st:
      "Cache_Set (cache e) key r2 [VUint (expireTime e)] s = (err3, s3)"
      by (metis surj_pair)
    from False en k1 g first en2 st
    have e1: "e1 = e\<lparr>cache := (cache e)\<lparr>self := s3\<rparr>, Enforcer := s2\<rparr>"
      and d: "d = r2" and ok: "err3 = None"
      by (auto simp: Enforce_def getCachedResult_def cache_Get_def Enforcer_Enforce_def
          setCachedResult_def cache_Set_def split: if_splits)
    from sg st ok have "fst (Cache_Get (cache e) key s3) = (r2, None)"
      unfolding Set_then_Get_def by blast
    then show ?thesis using en k2 e1 d
      by (auto simp: Enforce_def getCachedResult_def cache_Get_def split: prod.splits)
  qed
qed

text \<open>
  Claim C1. Caching enabled, every parameter a string, the store keeping what \<open>Set\<close>
  put into it (as \<open>DefaultCache\<close> does): when a first \<open>Enforce\<close> returns decision
  \<open>d\<close> with no error, a second \<open>Enforce\<close> with the same parameters on the enforcer the
  first one left returns \<open>d\<close> with no error, causes no engine event and leaves the
  engine's state as it was.
\<close>

theorem Enforce_repeat_is_cache_hit:
  assumes "enableCache e \<noteq> 0"
    and "\<forall>p \<in> set rvals. is_string p"
    and "Set_then_Get (cache e)" and "Get_repeats (cache e)"
    and "Enforce E rvals e = ((d, None), e1, t1)"
  shows "fst (Enforce E rvals e1) = (d, None)
    \<and> \<not> list_ex is_engine_event (snd (snd (Enforce E rvals e1)))
    \<and> Enforcer (fst (snd (Enforce E rvals e1))) = Enforcer e1"
proof -
  from assms(2) obtain key where k: "getKey rvals = (key, True)"
    using getKey_strings by blast
  from Enforce_second_call_hits [OF assms(1) k k assms(3) assms(4) assms(5)]
  show ?thesis by auto
qed

theorem Enforce_repeat_is_cache_hit_witness:
  "Enforce (stub_engine (\<lambda>rvals. (True, None)))
      [VString ''alice'', VString ''data1'', VString ''read''] (test_enforcer Map.empty)
     = ((True, None),
        \<lparr>Enforcer = 1, expireTime = 0,
         cache = DefaultCache_iface [''alice$$data1$$read$$'' \<mapsto> True], enableCache = 1\<rparr>,
        [RLock, CacheGet ''alice$$data1$$read$$'', RUnlock,
         EngineEnforce [VString ''alice'', VString ''data1'', VString ''read''],
         Lock, CacheSet ''alice$$data1$$read$$'' True [VUint 0], Unlock])
   \<and> fst (Enforce (stub_engine (\<lambda>rvals. (True, None)))
        [VString ''alice'', VString ''data1'', VString ''read'']
        \<lparr>Enforcer = 1, expireTime = 0,
         cache = DefaultCache_iface [''alice$$data1$$read$$'' \<mapsto> True], enableCache = 1\<rparr>)
     = (True, None)
   \<and> Enforcer (fst (snd (Enforce (stub_engine (\<lambda>rvals. (True, None)))
        [VString ''alice'', VString ''data1'', VString ''read'']
        \<lparr>Enforcer = 1, expireTime = 0,
         cache = DefaultCache_iface [''alice$$data1$$read$$'' \<mapsto> True], enableCache = 1\<rparr>)))
     = (1::nat)"
proof -
  let ?E = "stub_engine (\<lambda>rvals. (True, None))"
  let ?rv = "[VString ''alice'', VString ''data1'', VString ''read'']"
  let ?e1 = "\<lparr>Enforcer = 1::nat, expireTime = 0,
         cache = DefaultCache_iface [''alice$$data1$$read$$'' \<mapsto> True], enableCache = 1\<rparr>"
  have first: "Enforce ?E ?rv (test_enforcer Map.empty)
     = ((True, None), ?e1,
        [RLock, CacheGet ''alice$$data1$$read$$'', RUnlock, EngineEnforce ?rv,
         Lock, CacheSet ''alice$$data1$$read$$'' True [VUint 0], Unlock])"
    by (simp add: run_defs)
  have en: "enableCache (test_enforcer Map.empty) \<noteq> 0" by (simp add: test_enforcer_def)
  have str: "\<forall>p \<in> set ?rv. is_string p" by simp
  have sg: "Set_then_Get (cache (test_enforcer Map.empty))"
    by (simp add: test_enforcer_def DefaultCache_Set_then_Get)
  have gr: "Get_repeats (cache (test_enforcer Map.empty))"
    by (simp add: test_enforcer_def DefaultCache_Get_repeats)
  from Enforce_repeat_is_cache_hit [OF en str sg gr first] first
  show ?thesis by simp
qed

text \<open>
  Claim C10. The key builder is not injective on string parameters: the one parameter
  \<open>a$$b\<close> and the two parameters \<open>a\<close>, \<open>b\<close> are different requests with the same
  key \<open>a$$b$$\<close>. So with caching enabled, once \<open>Enforce\<close> has succeeded with decision
  \<open>d\<close> for the first, \<open>Enforce\<close> for the second returns \<open>d\<close> from the store: its
  only events are the locked \<open>Get\<close>, and the engine is not consulted.
\<close>

theorem getKey_not_injective:
  "[VString ''a$$b''] \<noteq> [VString ''a'', VString ''b'']
   \<and> getKey [VString ''a$$b''] = (''a$$b$$'', True)
   \<and> getKey [VString ''a'', VString ''b''] = (''a$$b$$'', True)
   \<and> (enableCache e \<noteq> 0 \<and> Set_then_Get (cache e) \<and> Get_repeats (cache e)
        \<and> Enforce E [VString ''a$$b''] e = ((d, None), e1, t1)
      \<longrightarrow> (\<exists>e2. Enforce E [VString ''a'', VString ''b''] e1
                  = ((d, None), e2, [RLock, CacheGet ''a$$b$$'', RUnlock])
               \<and> Enforcer e2 = Enforcer e1))"
proof -
  have k1: "getKey [VString ''a$$b''] = (''a$$b$$'', True)" by (simp add: getKey_def)
  have k2: "getKey [VString ''a'', VString ''b''] = (''a$$b$$'', True)" by (simp add: getKey_def)
  show ?thesis using k1 k2 Enforce_second_call_hits [OF _ k1 k2, of e E d e1 t1] by simp
qed

theorem getKey_not_injective_witness:
  "Enforce (stub_engine (\<lambda>rvals. (rvals = [VString ''a$$b''], None)))
      [VString ''a$$b''] (test_enforcer Map.empty)
     = ((True, None),
        \<lparr>Enforcer = 1, expireTime = 0, cache = DefaultCache_iface [''a$$b$$'' \<mapsto> True],
         enableCache = 1\<rparr>,
        [RLock, CacheGet ''a$$b$$'', RUnlock, EngineEnforce [VString ''a$$b''],
         Lock, CacheSet ''a$$b$$'' True [VUint 0], Unlock])
   \<and> fst (eEnforce (stub_engine (\<lambda>rvals. (rvals = [VString ''a$$b''], None)))
        [VString ''a'', VString ''b''] 1) = (False, None)
   \<and> (\<exists>e2. Enforce (stub_engine (\<lambda>rvals. (rvals = [VString ''a$$b''], None)))
        [VString ''a'', VString ''b'']
        \<lparr>Enforcer = 1, expireTime = 0, cache = DefaultCache_iface [''a$$b$$'' \<mapsto> True],
         enableCache = 1\<rparr>
        = ((True, None), e2, [RLock, CacheGet ''a$$b$$'', RUnlock]) \<and> Enforcer e2 = 1)"
proof -
  let ?E = "stub_engine (\<lambda>rvals. (rvals = [VString ''a$$b''], None))"
  let ?e1 = "\<lparr>Enforcer = 1::nat, expireTime = 0,
         cache = DefaultCache_iface [''a$$b$$'' \<mapsto> True], enableCache = 1\<rparr>"
  have first: "Enforce ?E [VString ''a$$b''] (test_enforcer Map.empty)
     = ((True, None), ?e1,
        [RLock, CacheGet ''a$$b$$'', RUnlock, EngineEnforce [VString ''a$$b''],
         Lock, CacheSet ''a$$b$$'' True [VUint 0], Unlock])"
    by (simp add: run_defs)
  have pre: "enableCache (test_enforcer Map.empty) \<noteq> 0
     \<and> Set_then_Get (cache (test_enforcer Map.empty))
     \<and> Get_repeats (cache (test_enforcer Map.empty))"
    by (simp add: test_enforcer_def DefaultCache_Set_then_Get DefaultCache_Get_repeats)
  have engine: "fst (eEnforce ?E [VString ''a'', VString ''b''] 1) = (False, None)"
    by (simp add: stub_engine_def)
  from getKey_not_injective [of "test_enforcer Map.empty" ?E True ?e1] first pre engine
  show ?thesis by simp
qed

text \<open>
  Claim C6. Caching enabled, a cacheable request, and the \<open>Get\<close> of its key failing
  with \<open>ErrNoSuchKey\<close>, leaving the store's receiver as \<open>s\<close>. If the engine's
  \<open>Enforce\<close> fails, the call returns \<open>false\<close> with the engine's error, the store stays
  as the \<open>Get\<close> left it and no \<open>Set\<close> happens. If the engine succeeds with
  decision \<open>res2\<close>, the store's \<open>Set\<close> is called once with the key, \<open>res2\<close> and
  the configured expire time, and the call returns \<open>res2\<close> together with whatever error
  that \<open>Set\<close> returned.
\<close>

theorem Enforce_on_miss:
  assumes "enableCache e \<noteq> 0"
    and "getKey rvals = (key, True)"
    and "Cache_Get (cache e) key (self (cache e)) = ((res, Some ErrNoSuchKey), s)"
    and "eEnforce E rvals (Enforcer e) = ((res2, err2), en)"
    and "Cache_Set (cache e) key res2 [VUint (expireTime e)] s = (err3, s3)"
  shows "(err2 \<noteq> None \<longrightarrow>
            Enforce E rvals e =
              ((False, err2), e\<lparr>cache := (cache e)\<lparr>self := s\<rparr>, Enforcer := en\<rparr>,
               [RLock, CacheGet key, RUnlock, EngineEnforce rvals]))
    \<and> (err2 = None \<longrightarrow>
          Enforce E rvals e =
            ((res2, err3), e\<lparr>cache := (cache e)\<lparr>self := s3\<rparr>, Enforcer := en\<rparr>,
             [RLock, CacheGet key, RUnlock, EngineEnforce rvals,
              Lock, CacheSet key res2 [VUint (expireTime e)], Unlock]))"
  using assms
  by (auto simp: Enforce_def getCachedResult_def cache_Get_def Enforcer_Enforce_def
      setCachedResult_def cache_Set_def)

theorem Enforce_on_miss_witness:
  "Enforce (stub_engine (\<lambda>rvals. (False, Some (ErrOther ''matcher''))))
      [VString ''alice'', VString ''data1''] (test_enforcer [''bob$$'' \<mapsto> True])
     = ((False, Some (ErrOther ''matcher'')),
        \<lparr>Enforcer = 1, expireTime = 0, cache = DefaultCache_iface [''bob$$'' \<mapsto> True],
         enableCache = 1\<rparr>,
        [RLock, CacheGet ''alice$$data1$$'', RUnlock,
         EngineEnforce [VString ''alice'', VString ''data1'']])
   \<and> Enforce (stub_engine (\<lambda>rvals. (True, None)))
      [VString ''alice'', VString ''data1'']
      \<lparr>Enforcer = 0, expireTime = 30, cache = readonly_store, enableCache = 1\<rparr>
     = ((True, Some (ErrOther ''read-only'')),
        \<lparr>Enforcer = 1, expireTime = 30, cache = readonly_store, enableCache = 1\<rparr>,
        [RLock, CacheGet ''alice$$data1$$'', RUnlock,
         EngineEnforce [VString ''alice'', VString ''data1''],
         Lock, CacheSet ''alice$$data1$$'' True [VUint 30], Unlock])"
proof -
  let ?F = "stub_engine (\<lambda>rvals. (False, Some (ErrOther ''matcher'')))"
  let ?E = "stub_engine (\<lambda>rvals. (True, None))"
  let ?ps = "[VString ''alice'', VString ''data1'']"
  let ?e = "test_enforcer [''bob$$'' \<mapsto> True]"
  let ?r = "\<lparr>Enforcer = 0::nat, expireTime = 30, cache = readonly_store, enableCache = 1\<rparr>"
  have k: "getKey ?ps = (''alice$$data1$$'', True)" by (simp add: getKey_def)
  have en: "enableCache ?e \<noteq> 0" and enr: "enableCache ?r \<noteq> 0"
    by (simp_all add: test_enforcer_def)
  have g: "Cache_Get (cache ?e) ''alice$$data1$$'' (self (cache ?e))
      = ((False, Some ErrNoSuchKey), [''bob$$'' \<mapsto> True])"
    by (simp add: run_defs)
  have f: "eEnforce ?F ?ps (Enforcer ?e) = ((False, Some (ErrOther ''matcher'')), 1)"
    by (simp add: run_defs)
  have st: "Cache_Set (cache ?e) ''alice$$data1$$'' False [VUint (expireTime ?e)]
      [''bob$$'' \<mapsto> True] = (None, [''bob$$'' \<mapsto> True, ''alice$$data1$$'' \<mapsto> False])"
    by (simp add: run_defs)
  have gr: "Cache_Get (cache ?r) ''alice$$data1$$'' (self (cache ?r))
      = ((False, Some ErrNoSuchKey), ())"
    by (simp add: run_defs)
  have fr: "eEnforce ?E ?ps (Enforcer ?r) = ((True, None), 1)"
    by (simp add: run_defs)
  have sr: "Cache_Set (cache ?r) ''alice$$data1$$'' True [VUint (expireTime ?r)] ()
      = (Some (ErrOther ''read-only''), ())"
    by (simp add: run_defs)
  from Enforce_on_miss [OF en k g f st] Enforce_on_miss [OF enr k gr fr sr]
  show ?thesis by (simp add: run_defs)
qed

section \<open>LoadPolicy\<close>

text \<open>
  Claim C4. With caching enabled \<open>LoadPolicy\<close> calls the store's \<open>Clear\<close> first. If
  \<open>Clear\<close> fails, its error is returned and the engine's \<open>LoadPolicy\<close> is not called.
  If \<open>Clear\<close> succeeds, the engine's \<open>LoadPolicy\<close> runs next and its result is
  returned; the store is the one \<open>Clear\<close> left, so for a store whose \<open>Clear\<close> empties
  it every key is absent afterwards, whatever the reload returned.
\<close>

theorem LoadPolicy_clears_before_reload:
  assumes "enableCache e \<noteq> 0"
    and "Cache_Clear (cache e) (self (cache e)) = (err, s)"
  shows "(err \<noteq> None \<longrightarrow>
            LoadPolicy E e = (err, e\<lparr>cache := (cache e)\<lparr>self := s\<rparr>\<rparr>, [CacheClear]))
    \<and> (err = None \<longrightarrow>
          LoadPolicy E e =
            (fst (eLoadPolicy E (Enforcer e)),
             e\<lparr>cache := (cache e)\<lparr>self := s\<rparr>, Enforcer := snd (eLoadPolicy E (Enforcer e))\<rparr>,
             [CacheClear, EngineLoadPolicy]))
    \<and> (err = None \<and> Clear_empties (cache e) \<longrightarrow>
          (\<forall>key. fst (cache_Get key (fst (snd (LoadPolicy E e))))
                   = (False, Some ErrNoSuchKey)))"
proof -
  have fail: "err \<noteq> None \<longrightarrow>
      LoadPolicy E e = (err, e\<lparr>cache := (cache e)\<lparr>self := s\<rparr>\<rparr>, [CacheClear])"
    using assms by (auto simp: LoadPolicy_def cache_Clear_def)
  have ok: "err = None \<longrightarrow>
      LoadPolicy E e =
        (fst (eLoadPolicy E (Enforcer e)),
         e\<lparr>cache := (cache e)\<lparr>self := s\<rparr>, Enforcer := snd (eLoadPolicy E (Enforcer e))\<rparr>,
         [CacheClear, EngineLoadPolicy])"
    using assms
    by (simp add: LoadPolicy_def cache_Clear_def Enforcer_LoadPolicy_def split: prod.splits)
  have absent: "err = None \<and> Clear_empties (cache e) \<longrightarrow>
      (\<forall>key. fst (cache_Get key (fst (snd (LoadPolicy E e)))) = (False, Some ErrNoSuchKey))"
  proof (intro impI allI, elim conjE)
    fix key
    assume none: "err = None" and ce: "Clear_empties (cache e)"
    from ce assms(2) none have "fst (Cache_Get (cache e) key s) = (False, Some ErrNoSuchKey)"
      unfolding Clear_empties_def by blast
    with ok none show "fst (cache_Get key (fst (snd (LoadPolicy E e)))) = (False, Some ErrNoSuchKey)"
      by (auto simp: cache_Get_def split: prod.splits)
  qed
  from fail ok absent show ?thesis by blast
qed

theorem LoadPolicy_clears_before_reload_witness:
  "LoadPolicy (stub_engine (\<lambda>rvals. (True, None))) (test_enforcer [''alice$$'' \<mapsto> True])
     = (None,
        \<lparr>Enforcer = 1, expireTime = 0, cache = DefaultCache_iface Map.empty, enableCache = 1\<rparr>,
        [CacheClear, EngineLoadPolicy])
   \<and> fst (cache_Get ''alice$$''
        (fst (snd (LoadPolicy (stub_engine (\<lambda>rvals. (True, None)))
           (test_enforcer [''alice$$'' \<mapsto> True])))))
     = (False, Some ErrNoSuchKey)
   \<and> LoadPolicy (stub_engine (\<lambda>rvals. (True, None))) broken_enforcer
     = (Some (ErrOther ''unreachable''), broken_enforcer, [CacheClear])"
proof -
  let ?E = "stub_engine (\<lambda>rvals. (True, None))"
  let ?e = "test_enforcer [''alice$$'' \<mapsto> True]"
  have en: "enableCache ?e \<noteq> 0" by (simp add: test_enforcer_def)
  have cl: "Cache_Clear (cache ?e) (self (cache ?e)) = (None, Map.empty)"
    by (simp add: run_defs)
  have ce: "Clear_empties (cache ?e)"
    by (simp add: test_enforcer_def DefaultCache_Clear_empties)
  have enb: "enableCache broken_enforcer \<noteq> 0" by (simp add: broken_enforcer_def)
  have clb: "Cache_Clear (cache broken_enforcer) (self (cache broken_enforcer))
      = (Some (ErrOther ''unreachable''), ())"
    by (simp add: run_defs)
  from LoadPolicy_clears_before_reload [OF en cl, of ?E]
    LoadPolicy_clears_before_reload [OF enb clb, of ?E] ce
  show ?thesis by (simp add: run_defs)
qed

section \<open>RemovePolicy\<close>

text \<open>
  Claim C5. With caching enabled and cacheable parameters, \<open>RemovePolicy\<close> calls the
  store's \<open>Delete\<close> on the derived key first. When \<open>Delete\<close> returns no error or
  \<open>ErrNoSuchKey\<close>, the engine's \<open>RemovePolicy\<close> runs next and its result is returned.
  When \<open>Delete\<close> returns any other error, the call returns \<open>false\<close> with that error
  and the engine is not called.
\<close>

theorem RemovePolicy_deletes_before_removal:
  assumes "enableCache e \<noteq> 0"
    and "getKey params = (key, True)"
    and "Cache_Delete (cache e) key (self (cache e)) = (err, s)"
  shows "(err = None \<or> err = Some ErrNoSuchKey \<longrightarrow>
            RemovePolicy E params e =
              (fst (eRemovePolicy E params (Enforcer e)),
               e\<lparr>cache := (cache e)\<lparr>self := s\<rparr>,
                 Enforcer := snd (eRemovePolicy E params (Enforcer e))\<rparr>,
               [CacheDelete key, EngineRemovePolicy params]))
    \<and> (err \<noteq> None \<and> err \<noteq> Some ErrNoSuchKey \<longrightarrow>
          RemovePolicy E params e =
            ((False, err), e\<lparr>cache := (cache e)\<lparr>self := s\<rparr>\<rparr>, [CacheDelete key]))"
  using assms
  by (auto simp: RemovePolicy_def cache_Delete_def Enforcer_RemovePolicy_def split: prod.splits)

theorem RemovePolicy_deletes_before_removal_witness:
  "RemovePolicy (stub_engine (\<lambda>rvals. (True, None)))
      [VString ''alice'', VString ''data1''] (test_enforcer [''alice$$data1$$'' \<mapsto> True])
     = ((True, None),
        \<lparr>Enforcer = 1, expireTime = 0, cache = DefaultCache_iface Map.empty, enableCache = 1\<rparr>,
        [CacheDelete ''alice$$data1$$'', EngineRemovePolicy [VString ''alice'', VString ''data1'']])
   \<and> RemovePolicy (stub_engine (\<lambda>rvals. (True, None)))
      [VString ''alice'', VString ''data1''] (test_enforcer Map.empty)
     = ((True, None),
        \<lparr>Enforcer = 1, expireTime = 0, cache = DefaultCache_iface Map.empty, enableCache = 1\<rparr>,
        [CacheDelete ''alice$$data1$$'', EngineRemovePolicy [VString ''alice'', VString ''data1'']])
   \<and> RemovePolicy (stub_engine (\<lambda>rvals. (True, None)))
      [VString ''alice'', VString ''data1''] broken_enforcer
     = ((False, Some (ErrOther ''unreachable'')), broken_enforcer,
        [CacheDelete ''alice$$data1$$''])"
proof -
  let ?E = "stub_engine (\<lambda>rvals. (True, None))"
  let ?ps = "[VString ''alice'', VString ''data1'']"
  let ?e = "test_enforcer [''alice$$data1$$'' \<mapsto> True]"
  let ?em = "test_enforcer Map.empty"
  have k: "getKey ?ps = (''alice$$data1$$'', True)" by (simp add: getKey_def)
  have en: "enableCache ?e \<noteq> 0" and en0: "enableCache ?em \<noteq> 0"
    and enb: "enableCache broken_enforcer \<noteq> 0"
    by (simp_all add: test_enforcer_def broken_enforcer_def)
  have d: "Cache_Delete (cache ?e) ''alice$$data1$$'' (self (cache ?e)) = (None, Map.empty)"
    by (simp add: run_defs)
  have d0: "Cache_Delete (cache ?em) ''alice$$data1$$'' (self (cache ?em))
      = (Some ErrNoSuchKey, Map.empty)"
    by (simp add: run_defs)
  have db: "Cache_Delete (cache broken_enforcer) ''alice$$data1$$'' (self (cache broken_enforcer))
      = (Some (ErrOther ''unreachable''), ())"
    by (simp add: run_defs)
  from RemovePolicy_deletes_before_removal [OF en k d, of ?E]
    RemovePolicy_deletes_before_removal [OF en0 k d0, of ?E]
    RemovePolicy_deletes_before_removal [OF enb k db, of ?E]
  show ?thesis by (simp add: run_defs)
qed

section \<open>RemovePolicies\<close>

text \<open>
  When every rule has the length of the first one, each iteration overwrites the whole of
  \<open>irule\<close>, the key deleted is the rule's own, and on the default store the keys of all
  the rules are absent after the call.
\<close>

lemma assign_irule_fits:
  "i + length rule \<le> length irule \<Longrightarrow>
     assign_irule i rule irule
       = Inr (take i irule @ map VString rule @ drop (i + length rule) irule)"
proof (induction rule arbitrary: i irule)
  case Nil
  then show ?case by simp
next
  case (Cons param rule)
  from Cons.prems have lt: "i < length irule" by simp
  from Cons.prems have "Suc i + length rule \<le> length (irule[i := VString param])" by simp
  from Cons.IH [OF this] lt show ?case
    by (simp add: take_Suc_conv_app_nth)
qed

lemma assign_irule_same_length:
  "length rule = length irule \<Longrightarrow> assign_irule 0 rule irule = Inr (map VString rule)"
  using assign_irule_fits [of 0 rule irule] by simp

lemma made_Delete_result:
  "snd (made_Delete key m) = m(key := None)
   \<and> (fst (made_Delete key m) = None \<or> fst (made_Delete key m) = Some ErrNoSuchKey)"
  by (auto simp: made_Delete_def split: option.splits)

lemma RemovePolicies_loop_default:
  assumes "cache e = DefaultCache_iface m"
    and "\<forall>r \<in> set rules. length r = length irule"
  shows "\<exists>m' t. RemovePolicies_loop rules irule e
            = Inr (None, e\<lparr>cache := DefaultCache_iface m'\<rparr>, t)
          \<and> (\<forall>r \<in> set rules. m' (fst (getKey (map VString r))) = None)
          \<and> (\<forall>k. m k = None \<longrightarrow> m' k = None)"
  using assms
proof (induction rules arbitrary: irule e m)
  case Nil
  then show ?case
    by (metis RemovePolicies_loop.simps(1) CachedEnforcer.surjective CachedEnforcer.update_convs(3)
        empty_iff list.set(1))
next
  case (Cons rule rules)
  let ?irule1 = "map VString rule"
  let ?key = "fst (getKey ?irule1)"
  let ?m1 = "m(?key := None)"
  let ?e1 = "e\<lparr>cache := DefaultCache_iface ?m1\<rparr>"
  from Cons.prems(2) have a: "assign_irule 0 rule irule = Inr ?irule1"
    by (simp add: assign_irule_same_length)
  have del: "\<exists>err. cache_Delete ?key e = (err, ?e1, [CacheDelete ?key])
                \<and> (err = None \<or> err = Some ErrNoSuchKey)"
    using Cons.prems(1) made_Delete_result [of ?key m]
    by (auto simp: cache_Delete_def DefaultCache_iface_def split: prod.splits)
  have c1: "cache ?e1 = DefaultCache_iface ?m1" by simp
  from Cons.prems(2) have len: "\<forall>r \<in> set rules. length r = length ?irule1" by simp
  from Cons.IH [OF c1 len] obtain m' t where
    run: "RemovePolicies_loop rules ?irule1 ?e1 = Inr (None, ?e1\<lparr>cache := DefaultCache_iface m'\<rparr>, t)"
    and gone: "\<forall>r \<in> set rules. m' (fst (getKey (map VString r))) = None"
    and mono: "\<forall>k. ?m1 k = None \<longrightarrow> m' k = None"
    by blast
  from del obtain err where
    d: "cache_Delete ?key e = (err, ?e1, [CacheDelete ?key])"
    and ok: "err = None \<or> err = Some ErrNoSuchKey" by blast
  from a d ok run
  have "RemovePolicies_loop (rule # rules) irule e
      = Inr (None, e\<lparr>cache := DefaultCache_iface m'\<rparr>, CacheDelete ?key # t)"
    by auto
  moreover from gone mono have "\<forall>r \<in> set (rule # rules). m' (fst (getKey (map VString r))) = None"
    by simp
  moreover from mono have "\<forall>k. m k = None \<longrightarrow> m' k = None" by simp
  ultimately show ?case by blast
qed

lemma RemovePolicies_same_length_rules:
  assumes "enableCache e \<noteq> 0"
    and "cache e = DefaultCache_iface m"
    and "rules = rule0 # rest"
    and "\<forall>r \<in> set rules. length r = length rule0"
  shows "\<exists>r en m' t. RemovePolicies E rules e
            = Inr (r, e\<lparr>cache := DefaultCache_iface m', Enforcer := en\<rparr>, t)
          \<and> (\<forall>rule \<in> set rules. m' (fst (getKey (map VString rule))) = None)"
proof -
  from assms(4) have "\<forall>r \<in> set rules. length r = length (replicate (length rule0) VNil)"
    by simp
  from RemovePolicies_loop_default [OF assms(2) this] obtain m' t where
    run: "RemovePolicies_loop rules (replicate (length rule0) VNil) e
            = Inr (None, e\<lparr>cache := DefaultCache_iface m'\<rparr>, t)"
    and gone: "\<forall>r \<in> set rules. m' (fst (getKey (map VString r))) = None"
    by blast
  from assms(1,3) run have "RemovePolicies E rules e
     = Inr (fst (eRemovePolicies E rules (Enforcer e)),
            e\<lparr>cache := DefaultCache_iface m',
              Enforcer := snd (eRemovePolicies E rules (Enforcer e))\<rparr>,
            t @ [EngineRemovePolicies rules])"
    by (simp add: RemovePolicies_def Enforcer_RemovePolicies_def split: prod.splits)
  with gone show ?thesis by blast
qed

text \<open>
  Claim C2 says that after \<open>RemovePolicies\<close> the key of every rule is absent from the
  store. The code builds every key from the one slice \<open>irule\<close>, made with the length
  of the first rule. For the rules \<open>(alice, data1)\<close>, \<open>(bob)\<close> the second key is
  therefore built from \<open>(bob, data1)\<close>: \<open>bob$$data1$$\<close> is deleted, and the key
  \<open>bob$$\<close> of the rule \<open>(bob)\<close> is still in the store after the call. With the rules
  in the other order the assignment \<open>irule[1] = data1\<close> is out of range.
\<close>

theorem RemovePolicies_shorter_rule_keeps_key:
  "getKey [VString ''bob''] = (''bob$$'', True)
   \<and> RemovePolicies (stub_engine (\<lambda>rvals. (True, None)))
        [[''alice'', ''data1''], [''bob'']] (test_enforcer [''bob$$'' \<mapsto> True])
     = Inr ((True, None),
            \<lparr>Enforcer = 1, expireTime = 0, cache = DefaultCache_iface [''bob$$'' \<mapsto> True],
             enableCache = 1\<rparr>,
            [CacheDelete ''alice$$data1$$'', CacheDelete ''bob$$data1$$'',
             EngineRemovePolicies [[''alice'', ''data1''], [''bob'']]])
   \<and> fst (cache_Get ''bob$$''
        \<lparr>Enforcer = 1::nat, expireTime = 0, cache = DefaultCache_iface [''bob$$'' \<mapsto> True],
         enableCache = 1\<rparr>) = (True, None)
   \<and> RemovePolicies (stub_engine (\<lambda>rvals. (True, None)))
        [[''bob''], [''alice'', ''data1'']] (test_enforcer [''bob$$'' \<mapsto> True])
     = Inl IndexOutOfRange"
  by (simp add: run_defs)

section \<open>The locking rule\<close>

lemma LoadPolicy_trace_starts_with_Clear:
  "enableCache e \<noteq> 0 \<Longrightarrow> \<exists>t. snd (snd (LoadPolicy E e)) = CacheClear # t"
  by (auto simp: LoadPolicy_def cache_Clear_def Enforcer_LoadPolicy_def split: prod.splits)

lemma RemovePolicy_trace_starts_with_Delete:
  "enableCache e \<noteq> 0 \<Longrightarrow> getKey params = (key, True)
     \<Longrightarrow> \<exists>t. snd (snd (RemovePolicy E params e)) = CacheDelete key # t"
  by (auto simp: RemovePolicy_def cache_Delete_def Enforcer_RemovePolicy_def split: prod.splits)

lemma InvalidateCache_trace: "snd (snd (InvalidateCache e)) = [Lock, CacheClear, Unlock]"
  by (simp add: InvalidateCache_def cache_Clear_def split: prod.splits)

lemma Enforce_lock_guarded: "lock_guarded Free (snd (snd (Enforce E rvals e)))"
  by (auto simp: Enforce_def getCachedResult_def setCachedResult_def cache_Get_def
      cache_Set_def Enforcer_Enforce_def split: prod.splits)

text \<open>
  Claim C9 says that every write to the store happens with the write lock held, in every
  public operation. \<open>Enforce\<close> and \<open>InvalidateCache\<close> keep the rule. With caching
  enabled \<open>LoadPolicy\<close> calls \<open>Clear\<close>, and \<open>RemovePolicy\<close> on cacheable parameters
  calls \<open>Delete\<close>, with no lock held; so does \<open>RemovePolicies\<close>, as its events on a
  one-rule list show.
\<close>

theorem store_writes_outside_lock:
  assumes "enableCache e \<noteq> 0"
  shows "\<not> lock_guarded Free (snd (snd (LoadPolicy E e)))
    \<and> (snd (getKey params) \<longrightarrow> \<not> lock_guarded Free (snd (snd (RemovePolicy E params e))))
    \<and> lock_guarded Free (snd (snd (InvalidateCache e)))
    \<and> lock_guarded Free (snd (snd (Enforce E rvals e)))"
proof -
  from assms obtain t where "snd (snd (LoadPolicy E e)) = CacheClear # t"
    using LoadPolicy_trace_starts_with_Clear by blast
  then have load: "\<not> lock_guarded Free (snd (snd (LoadPolicy E e)))" by simp
  have remove: "snd (getKey params) \<longrightarrow> \<not> lock_guarded Free (snd (snd (RemovePolicy E params e)))"
  proof
    assume "snd (getKey params)"
    then have "getKey params = (fst (getKey params), True)" by (cases "getKey params") simp
    with assms obtain t where
      "snd (snd (RemovePolicy E params e)) = CacheDelete (fst (getKey params)) # t"
      using RemovePolicy_trace_starts_with_Delete by blast
    then show "\<not> lock_guarded Free (snd (snd (RemovePolicy E params e)))" by simp
  qed
  have inv: "lock_guarded Free (snd (snd (InvalidateCache e)))"
    by (simp add: InvalidateCache_trace)
  from load remove inv Enforce_lock_guarded show ?thesis by blast
qed

theorem store_writes_outside_lock_witness:
  "snd (snd (LoadPolicy (stub_engine (\<lambda>rvals. (True, None)))
        (test_enforcer [''alice$$data1$$'' \<mapsto> True])))
     = [CacheClear, EngineLoadPolicy]
   \<and> \<not> lock_guarded Free (snd (snd (LoadPolicy (stub_engine (\<lambda>rvals. (True, None)))
        (test_enforcer [''alice$$data1$$'' \<mapsto> True]))))
   \<and> snd (snd (RemovePolicy (stub_engine (\<lambda>rvals. (True, None)))
        [VString ''alice'', VString ''data1''] (test_enforcer [''alice$$data1$$'' \<mapsto> True])))
     = [CacheDelete ''alice$$data1$$'', EngineRemovePolicy [VString ''alice'', VString ''data1'']]
   \<and> \<not> lock_guarded Free (snd (snd (RemovePolicy (stub_engine (\<lambda>rvals. (True, None)))
        [VString ''alice'', VString ''data1''] (test_enforcer [''alice$$data1$$'' \<mapsto> True]))))
   \<and> RemovePolicies (stub_engine (\<lambda>rvals. (True, None))) [[''alice'', ''data1'']]
        (test_enforcer [''alice$$data1$$'' \<mapsto> True])
     = Inr ((True, None),
            \<lparr>Enforcer = 1, expireTime = 0, cache = DefaultCache_iface Map.empty,
             enableCache = 1\<rparr>,
            [CacheDelete ''alice$$data1$$'', EngineRemovePolicies [[''alice'', ''data1'']]])
   \<and> \<not> lock_guarded Free
        [CacheDelete ''alice$$data1$$'', EngineRemovePolicies [[''alice'', ''data1'']]]
   \<and> snd (snd (InvalidateCache (test_enforcer [''alice$$data1$$'' \<mapsto> True])))
     = [Lock, CacheClear, Unlock]
   \<and> lock_guarded Free (snd (snd (InvalidateCache (test_enforcer [''alice$$data1$$'' \<mapsto> True]))))"
proof -
  let ?E = "stub_engine (\<lambda>rvals. (True, None))"
  let ?ps = "[VString ''alice'', VString ''data1'']"
  let ?e = "test_enforcer [''alice$$data1$$'' \<mapsto> True]"
  have en: "enableCache ?e \<noteq> 0" by (simp add: test_enforcer_def)
  have k: "snd (getKey ?ps)" by (simp add: getKey_def)
  have tl: "snd (snd (LoadPolicy ?E ?e)) = [CacheClear, EngineLoadPolicy]"
    by (simp add: run_defs)
  have tr: "snd (snd (RemovePolicy ?E ?ps ?e))
      = [CacheDelete ''alice$$data1$$'', EngineRemovePolicy ?ps]"
    by (simp add: run_defs)
  have ti: "snd (snd (InvalidateCache ?e)) = [Lock, CacheClear, Unlock]"
    by (simp add: run_defs)
  have rs: "RemovePolicies ?E [[''alice'', ''data1'']] ?e
      = Inr ((True, None),
             \<lparr>Enforcer = 1, expireTime = 0, cache = DefaultCache_iface Map.empty,
              enableCache = 1\<rparr>,
             [CacheDelete ''alice$$data1$$'', EngineRemovePolicies [[''alice'', ''data1'']]])"
    by (simp add: run_defs)
  from store_writes_outside_lock [OF en, of ?E ?ps] k tl tr ti rs
  show ?thesis by simp
qed

end
